theory Spec2Isabelle
  imports Main "HOL-Library.Sublist"
begin

section \<open>Python string primitives\<close>

text \<open>
  Strings are lists of characters whose code points lie below 256. The helpers
  below follow \<^verbatim>\<open>str.isspace\<close>, \<^verbatim>\<open>str.lower\<close>, \<^verbatim>\<open>str.strip\<close>, \<^verbatim>\<open>str.split\<close>
  (without argument), \<^verbatim>\<open>str.startswith\<close>, \<^verbatim>\<open>str.join\<close> and the substring test
  \<^verbatim>\<open>a in b\<close> on that range.
\<close>

definition is_space :: "char \<Rightarrow> bool" where
  "is_space c = ((of_char c :: nat) \<in> {9, 10, 11, 12, 13, 28, 29, 30, 31, 32, 133, 160})"

definition lower_char :: "char \<Rightarrow> char" where
  "lower_char c =
     (let n = (of_char c :: nat)
      in if (65 \<le> n \<and> n \<le> 90) \<or> (192 \<le> n \<and> n \<le> 222 \<and> n \<noteq> 215)
         then char_of (n + 32) else c)"

definition lower :: "string \<Rightarrow> string" where
  "lower s = map lower_char s"

definition strip :: "string \<Rightarrow> string" where
  "strip s = rev (dropWhile is_space (rev (dropWhile is_space s)))"

text \<open>\<^verbatim>\<open>s.split()\<close>: the maximal runs of non-whitespace characters, in order.
  The first argument is the word being read.\<close>

fun split_from :: "string \<Rightarrow> string \<Rightarrow> string list" where
  "split_from cur [] = (if cur = [] then [] else [cur])"
| "split_from cur (c # cs) =
     (if is_space c
      then (if cur = [] then split_from [] cs else cur # split_from [] cs)
      else split_from (cur @ [c]) cs)"

definition split :: "string \<Rightarrow> string list" where
  "split s = split_from [] s"

text \<open>\<^verbatim>\<open>sub in s\<close> for strings: \<open>sub\<close> occurs in \<open>s\<close> as a contiguous block.\<close>

fun contains :: "string \<Rightarrow> string \<Rightarrow> bool" where
  "contains sub [] = (sub = [])"
| "contains sub (c # cs) = (prefix sub (c # cs) \<or> contains sub cs)"

definition startswith :: "string \<Rightarrow> string \<Rightarrow> bool" where
  "startswith s p = prefix p s"

fun join :: "string \<Rightarrow> string list \<Rightarrow> string" where
  "join sep [] = []"
| "join sep [x] = x"
| "join sep (x # y # ys) = x @ sep @ join sep (y # ys)"

section \<open>Data model\<close>

text \<open>The dictionaries built by the scraper and the track objects of the catalog.\<close>

record standard =
  std_title :: string
  std_url :: string

record recording =
  rec_artist :: string
  rec_info :: string
  rec_full_text :: string

record track =
  trk_uri :: string
  trk_name :: string
  trk_artists :: "string list"
  trk_album :: string

text \<open>The three entries of \<^verbatim>\<open>artist_patterns\<close>, in the order of the list.\<close>

datatype pattern = ArtistYear | ArtistDashInfo | ArtistOrchestra

definition artist_patterns :: "pattern list" where
  "artist_patterns = [ArtistYear, ArtistDashInfo, ArtistOrchestra]"

text \<open>
  One element of the list \<^verbatim>\<open>re.findall\<close> returns: a tuple of the groups when the
  pattern has more than one group, the text of the group itself (a string) when the
  pattern has exactly one.
\<close>

datatype match = Groups "string list" | Whole string

text \<open>
  What \<^verbatim>\<open>len(match)\<close>, \<^verbatim>\<open>match[i]\<close> and iteration see: the groups of a tuple,
  the one-character strings of a string.
\<close>

fun match_items :: "match \<Rightarrow> string list" where
  "match_items (Groups gs) = gs"
| "match_items (Whole s) = map (\<lambda>c. [c]) s"

section \<open>The outside world\<close>

text \<open>
  Every call that leaves the process is recorded as an event. Printing, logging and
  sleeping are left out.
\<close>

datatype event =
    FetchIndex
  | FetchPage string
  | Search string
  | Prompt
  | CreatePlaylist string
  | AddItems string "string list" bool

text \<open>The lines still to be read from standard input and the calls made so far.\<close>

record world =
  w_stdin :: "string list"
  w_events :: "event list"

text \<open>
  The collaborators. Each answer may depend on the calls made before it; \<open>None\<close> is a
  raised exception. \<open>http_find_links\<close> is the request for the index page followed by
  \<^verbatim>\<open>soup.find_all\<close> (text and \<^verbatim>\<open>href\<close> of each anchor); \<open>http_page_text\<close> is the request
  for a page followed by \<^verbatim>\<open>soup.get_text\<close>.
\<close>

record env =
  http_find_links :: "event list \<Rightarrow> (string \<times> string) list option"
  http_page_text :: "event list \<Rightarrow> string \<Rightarrow> string option"
  re_findall :: "pattern \<Rightarrow> string \<Rightarrow> match list"
  sp_search :: "event list \<Rightarrow> string \<Rightarrow> track list option"
  sp_user_playlist_create :: "event list \<Rightarrow> string \<Rightarrow> string option"
  sp_playlist_add_items :: "event list \<Rightarrow> string \<Rightarrow> string list \<Rightarrow> bool"

definition emit :: "event \<Rightarrow> world \<Rightarrow> world" where
  "emit e w = w\<lparr>w_events := w_events w @ [e]\<rparr>"

section \<open>scrape_top_100_standards\<close>

definition base_url :: string where
  "base_url = ''https://www.jazzstandards.com''"

definition make_standard :: "string \<times> string \<Rightarrow> standard" where
  "make_standard link =
     \<lparr>std_title = fst link,
      std_url = (if \<not> startswith (snd link) ''http'' then base_url @ snd link else snd link)\<rparr>"

definition scrape_top_100_standards :: "env \<Rightarrow> world \<Rightarrow> standard list \<times> world" where
  "scrape_top_100_standards en w =
     (case http_find_links en (w_events w) of
        None \<Rightarrow> ([], emit FetchIndex w)
      | Some links \<Rightarrow> (map make_standard (take 100 links), emit FetchIndex w))"

section \<open>scrape_recommended_recordings\<close>

text \<open>The body of the loop over the matches of one pattern.\<close>

definition recording_of_match :: "match \<Rightarrow> recording list" where
  "recording_of_match m =
     (let xs = match_items m
      in if length xs \<ge> 2 then
           [\<lparr>rec_artist = strip (xs ! 0),
             rec_info = (if length xs > 1 then strip (xs ! 1) else []),
             rec_full_text = join '' - '' xs\<rparr>]
         else if length xs = 1 then
           [\<lparr>rec_artist = strip (xs ! 0), rec_info = [], rec_full_text = xs ! 0\<rparr>]
         else [])"

definition collect_recordings :: "env \<Rightarrow> string \<Rightarrow> recording list" where
  "collect_recordings en text_content =
     concat (map (\<lambda>p. concat (map recording_of_match (re_findall en p text_content)))
                 artist_patterns)"

text \<open>The duplicate-removing loop, with its \<^verbatim>\<open>seen\<close> set.\<close>

fun unique_from :: "string set \<Rightarrow> recording list \<Rightarrow> recording list" where
  "unique_from seen [] = []"
| "unique_from seen (r # rs) =
     (let key = lower (rec_artist r)
      in if key \<notin> seen then r # unique_from (insert key seen) rs
         else unique_from seen rs)"

definition unique_recordings :: "recording list \<Rightarrow> recording list" where
  "unique_recordings rs = unique_from {} rs"

definition scrape_recommended_recordings ::
    "env \<Rightarrow> string \<Rightarrow> world \<Rightarrow> recording list \<times> world" where
  "scrape_recommended_recordings en standard_url w =
     (case http_page_text en (w_events w) standard_url of
        None \<Rightarrow> ([], emit (FetchPage standard_url) w)
      | Some text_content \<Rightarrow>
          (take 6 (unique_recordings (collect_recordings en text_content)),
           emit (FetchPage standard_url) w))"

section \<open>search_spotify_track\<close>

text \<open>The two tests of the first loop over the result items; \<open>track_name\<close> and
  \<open>artist_names\<close> are already lower-cased, as in the source.\<close>

definition artist_match :: "string \<Rightarrow> string list \<Rightarrow> bool" where
  "artist_match artist artist_names =
     list_ex (\<lambda>artist_name. contains (lower artist) artist_name
                          \<or> contains artist_name (lower artist)) artist_names"

definition title_match :: "string \<Rightarrow> string \<Rightarrow> bool" where
  "title_match standard_title track_name =
     (list_ex (\<lambda>word. contains word track_name) (split (lower standard_title))
      \<or> contains (lower standard_title) track_name)"

definition is_strong :: "string \<Rightarrow> string \<Rightarrow> track \<Rightarrow> bool" where
  "is_strong standard_title artist t =
     (let track_name = lower (trk_name t);
          artist_names = map lower (trk_artists t)
      in artist_match artist artist_names \<and> title_match standard_title track_name)"

text \<open>The test of the second loop.\<close>

definition is_weak :: "string \<Rightarrow> string \<Rightarrow> track \<Rightarrow> bool" where
  "is_weak standard_title artist t =
     (let track_name = lower (trk_name t);
          artist_names = map lower (trk_artists t)
      in list_ex (\<lambda>word. contains word track_name) (split (lower standard_title))
         \<and> list_ex (\<lambda>artist_name. contains (lower artist) artist_name) artist_names)"

text \<open>
  The selection on a non-empty result list \<open>first # rest\<close>: the pair
  \<^verbatim>\<open>(best_match, is_strong_match)\<close> held when the three steps are over.
\<close>

definition best_match :: "string \<Rightarrow> string \<Rightarrow> track \<Rightarrow> track list \<Rightarrow> track \<times> bool" where
  "best_match standard_title artist first rest =
     (case find (is_strong standard_title artist) (first # rest) of
        Some t \<Rightarrow> (t, True)
      | None \<Rightarrow>
          (case find (is_weak standard_title artist) (first # rest) of
             Some t \<Rightarrow> (t, False)
           | None \<Rightarrow> (first, False)))"

text \<open>
  The confirmation loop. Each \<^verbatim>\<open>input\<close> call is one \<open>Prompt\<close> event and takes one
  line; at the end of the input it raises \<^verbatim>\<open>EOFError\<close>, which the handler of
  \<^verbatim>\<open>search_spotify_track\<close> catches.
\<close>

datatype decision = Accept | Reject | SkipAll | EndOfInput

function ask :: "world \<Rightarrow> decision \<times> world" where
  "ask w =
     (case w_stdin w of
        [] \<Rightarrow> (EndOfInput, emit Prompt w)
      | line # lines \<Rightarrow>
          (if strip (lower line) \<in> set [''y'', ''yes'']
             then (Accept, emit Prompt (w\<lparr>w_stdin := lines\<rparr>))
           else if strip (lower line) \<in> set [''n'', ''no'']
             then (Reject, emit Prompt (w\<lparr>w_stdin := lines\<rparr>))
           else if strip (lower line) \<in> set [''s'', ''skip'']
             then (SkipAll, emit Prompt (w\<lparr>w_stdin := lines\<rparr>))
           else ask (emit Prompt (w\<lparr>w_stdin := lines\<rparr>))))"
  by pat_completeness auto
termination
  by (relation "measure (\<lambda>w. length (w_stdin w))") (auto simp: emit_def)

declare ask.simps [simp del]

text \<open>
  The loop over the queries. A search that raises, a selected track without artists
  (\<^verbatim>\<open>best_match['artists'][0]\<close>) and the end of the input all reach the handler, which
  returns \<^verbatim>\<open>None\<close>.
\<close>

fun query_loop ::
    "env \<Rightarrow> string \<Rightarrow> string \<Rightarrow> string list \<Rightarrow> world \<Rightarrow> string option \<times> world" where
  "query_loop en standard_title artist [] w = (None, w)"
| "query_loop en standard_title artist (query # queries) w =
     (case sp_search en (w_events w) query of
        None \<Rightarrow> (None, emit (Search query) w)
      | Some [] \<Rightarrow> query_loop en standard_title artist queries (emit (Search query) w)
      | Some (first # rest) \<Rightarrow>
          (case best_match standard_title artist first rest of
             (best, is_strong_match) \<Rightarrow>
               if trk_artists best = [] then (None, emit (Search query) w)
               else if is_strong_match then (Some (trk_uri best), emit (Search query) w)
               else (case ask (emit (Search query) w) of
                       (Accept, w') \<Rightarrow> (Some (trk_uri best), w')
                     | (Reject, w') \<Rightarrow> query_loop en standard_title artist queries w'
                     | (SkipAll, w') \<Rightarrow> (None, w')
                     | (EndOfInput, w') \<Rightarrow> (None, w'))))"

definition queries_of :: "string \<Rightarrow> string \<Rightarrow> string \<Rightarrow> string list" where
  "queries_of standard_title artist recording_info =
     [artist @ '' '' @ standard_title,
      artist @ '' '' @ recording_info,
      standard_title @ '' '' @ artist]"

definition search_spotify_track ::
    "env \<Rightarrow> string \<Rightarrow> string \<Rightarrow> string \<Rightarrow> world \<Rightarrow> string option \<times> world" where
  "search_spotify_track en standard_title artist recording_info w =
     query_loop en standard_title artist
       (queries_of standard_title artist recording_info) w"

section \<open>create_playlist, add_tracks_to_playlist and run\<close>

definition playlist_name :: string where
  "playlist_name = ''Top 100 Jazz Standards - Recommended Recordings''"

definition create_playlist :: "env \<Rightarrow> world \<Rightarrow> string option \<times> world" where
  "create_playlist en w =
     (sp_user_playlist_create en (w_events w) playlist_name,
      emit (CreatePlaylist playlist_name) w)"

text \<open>The flag of the event says whether \<^verbatim>\<open>playlist_add_items\<close> returned; when
  it raises, the error is logged and the run goes on.\<close>

definition add_tracks_to_playlist :: "env \<Rightarrow> string \<Rightarrow> string list \<Rightarrow> world \<Rightarrow> world" where
  "add_tracks_to_playlist en playlist_id track_uris w =
     emit (AddItems playlist_id track_uris
             (sp_playlist_add_items en (w_events w) playlist_id track_uris)) w"

text \<open>\<^verbatim>\<open>if track_uri and track_uri not in all_track_uris\<close>: an empty string is
  false in Python.\<close>

fun offer :: "string option \<Rightarrow> string list \<Rightarrow> string list" where
  "offer None all_track_uris = all_track_uris"
| "offer (Some track_uri) all_track_uris =
     (if track_uri \<noteq> [] \<and> track_uri \<notin> set all_track_uris
      then all_track_uris @ [track_uri] else all_track_uris)"

fun recordings_loop ::
    "env \<Rightarrow> string \<Rightarrow> recording list \<Rightarrow> string list \<Rightarrow> world \<Rightarrow> string list \<times> world" where
  "recordings_loop en standard_title [] all_track_uris w = (all_track_uris, w)"
| "recordings_loop en standard_title (r # rs) all_track_uris w =
     (case search_spotify_track en standard_title (rec_artist r) (rec_info r) w of
        (track_uri, w') \<Rightarrow>
          recordings_loop en standard_title rs (offer track_uri all_track_uris) w')"

text \<open>The batch step that closes the body of the loop over the standards.\<close>

definition flush_if_full :: "env \<Rightarrow> string \<Rightarrow> string list \<times> world \<Rightarrow> string list \<times> world" where
  "flush_if_full en playlist_id st =
     (case st of (all_track_uris, w) \<Rightarrow>
        if length all_track_uris \<ge> 50
        then (drop 50 all_track_uris,
              add_tracks_to_playlist en playlist_id (take 50 all_track_uris) w)
        else (all_track_uris, w))"

text \<open>The body of the loop over the standards up to the batch step; a standard
  without recordings is left by \<^verbatim>\<open>continue\<close>.\<close>

definition process_standard ::
    "env \<Rightarrow> string \<Rightarrow> standard \<Rightarrow> string list \<Rightarrow> world \<Rightarrow> string list \<times> world" where
  "process_standard en playlist_id s all_track_uris w =
     (case scrape_recommended_recordings en (std_url s) w of
        (recordings, w') \<Rightarrow>
          if recordings = [] then (all_track_uris, w')
          else flush_if_full en playlist_id
                 (recordings_loop en (std_title s) recordings all_track_uris w'))"

fun standards_loop ::
    "env \<Rightarrow> string \<Rightarrow> standard list \<Rightarrow> string list \<Rightarrow> world \<Rightarrow> string list \<times> world" where
  "standards_loop en playlist_id [] all_track_uris w = (all_track_uris, w)"
| "standards_loop en playlist_id (s # ss) all_track_uris w =
     (case process_standard en playlist_id s all_track_uris w of
        (all_track_uris', w') \<Rightarrow> standards_loop en playlist_id ss all_track_uris' w')"

text \<open>\<open>Raised\<close>: the exception of \<^verbatim>\<open>create_playlist\<close>, which \<^verbatim>\<open>run\<close> does not catch.\<close>

datatype outcome = Returned | Raised

definition run :: "env \<Rightarrow> world \<Rightarrow> outcome \<times> world" where
  "run en w =
     (case scrape_top_100_standards en w of
        (standards, w1) \<Rightarrow>
          if standards = [] then (Returned, w1)
          else (case create_playlist en w1 of
                  (None, w2) \<Rightarrow> (Raised, w2)
                | (Some playlist_id, w2) \<Rightarrow>
                    (case standards_loop en playlist_id standards [] w2 of
                       (all_track_uris, w3) \<Rightarrow>
                         if all_track_uris \<noteq> []
                         then (Returned, add_tracks_to_playlist en playlist_id all_track_uris w3)
                         else (Returned, w3))))"

section \<open>Notions used to state the properties\<close>

text \<open>The world after a further run of searches, none of them answered from the keyboard.\<close>

definition searched :: "world \<Rightarrow> string list \<Rightarrow> world" where
  "searched w qs = w\<lparr>w_events := w_events w @ map Search qs\<rparr>"

text \<open>The track URIs handed to \<^verbatim>\<open>playlist_add_items\<close>, one list per call, in call order.\<close>

fun appends :: "event list \<Rightarrow> string list list" where
  "appends [] = []"
| "appends (AddItems playlist_id track_uris ok # es) = track_uris # appends es"
| "appends (e # es) = appends es"

text \<open>
  \<open>all_track_uris\<close> inside the loop of \<^verbatim>\<open>run\<close>: the first \<open>k\<close> standards are done, the
  page of the next one is scraped and \<open>j\<close> of its recordings have been searched. The batch
  step of that standard has not run yet.
\<close>

definition buffer_at :: "env \<Rightarrow> string \<Rightarrow> standard list \<Rightarrow> world \<Rightarrow> nat \<Rightarrow> nat \<Rightarrow> string list" where
  "buffer_at en playlist_id standards w k j =
     (case standards_loop en playlist_id (take k standards) [] w of
        (all_track_uris, w') \<Rightarrow>
          (case scrape_recommended_recordings en (std_url (standards ! k)) w' of
             (recordings, w'') \<Rightarrow>
               fst (recordings_loop en (std_title (standards ! k)) (take j recordings)
                      all_track_uris w'')))"

text \<open>\<open>quiet w w'\<close>: from \<open>w\<close> to \<open>w'\<close> calls were only added, none of them an append to
  the playlist. \<open>bounded w w'\<close>: calls were only added, each append with at most 50 URIs.\<close>

definition quiet :: "world \<Rightarrow> world \<Rightarrow> bool" where
  "quiet w w' = (\<exists>es. w_events w' = w_events w @ es \<and> appends es = [])"

definition bounded :: "world \<Rightarrow> world \<Rightarrow> bool" where
  "bounded w w' = (\<exists>es. w_events w' = w_events w @ es \<and> (\<forall>us \<in> set (appends es). length us \<le> 50))"


text \<open>
  The title test as the specification words it: every word of the title occurs in the
  track name, or the whole title does.
\<close>

definition title_match_spec :: "string \<Rightarrow> string \<Rightarrow> bool" where
  "title_match_spec standard_title track_name =
     (list_all (\<lambda>word. contains word track_name) (split (lower standard_title))
      \<or> contains (lower standard_title) track_name)"

text \<open>
  The citation as the specification words it: the first group, the second group if
  there is one, and the groups joined.
\<close>

definition citation_spec :: "string list \<Rightarrow> recording" where
  "citation_spec groups =
     \<lparr>rec_artist = groups ! 0,
      rec_info = (if length groups > 1 then groups ! 1 else []),
      rec_full_text = join '' - '' groups\<rparr>"

section \<open>Concrete scenarios\<close>

text \<open>
  One standard, Autumn Leaves, whose page cites Bill Evans three times. The lists
  given for \<open>re_findall\<close> are what the three patterns find in \<open>evans_page\<close>. The catalog
  answers nothing to the first query and two tracks to the second.
\<close>

definition world0 :: world where
  "world0 = \<lparr>w_stdin = [], w_events = []\<rparr>"

definition evans_track :: track where
  "evans_track = \<lparr>trk_uri = ''spotify:track:autumn'', trk_name = ''Autumn Leaves'',
                   trk_artists = [''Bill Evans''], trk_album = ''Portrait in Jazz''\<rparr>"

definition other_track :: track where
  "other_track = \<lparr>trk_uri = ''spotify:track:other'', trk_name = ''Some Other Song'',
                   trk_artists = [''Bill Evans Trio''], trk_album = ''Live''\<rparr>"

definition evans_page :: string where
  "evans_page = ''Bill Evans (1959), Bill Evans (1961) and Bill Evans - Portrait in Jazz (1959)''"

definition evans_env :: env where
  "evans_env =
     \<lparr>http_find_links = (\<lambda>h. Some [(''Autumn Leaves'', ''/compositions-0/autumnleaves.htm'')]),
      http_page_text = (\<lambda>h u. Some evans_page),
      re_findall = (\<lambda>p t. if t = evans_page then
                       (case p of
                          ArtistYear \<Rightarrow> [Groups [''Bill Evans'', ''1959''], Groups [''Bill Evans'', ''1961'']]
                        | ArtistDashInfo \<Rightarrow> [Groups [''Bill Evans'', ''Portrait in Jazz '']]
                        | ArtistOrchestra \<Rightarrow> [])
                     else []),
      sp_search = (\<lambda>h q. if q = ''Bill Evans 1959'' then Some [other_track, evans_track] else Some []),
      sp_user_playlist_create = (\<lambda>h n. Some ''playlist1''),
      sp_playlist_add_items = (\<lambda>h p us. True)\<rparr>"

text \<open>The same scenario with other answers of the catalog, with the index page
  unreachable, and with lines typed at the prompt.\<close>

definition with_search :: "(event list \<Rightarrow> string \<Rightarrow> track list option) \<Rightarrow> env" where
  "with_search answer = evans_env\<lparr>sp_search := answer\<rparr>"

definition weak_first_env :: env where
  "weak_first_env = with_search (\<lambda>h q.
     if q = ''Bill Evans Autumn Leaves'' then Some [other_track]
     else if q = ''Bill Evans 1959'' then Some [evans_track] else Some [])"

definition failing_first_env :: env where
  "failing_first_env = with_search (\<lambda>h q.
     if q = ''Bill Evans Autumn Leaves'' then None else Some [evans_track])"

definition failing_second_env :: env where
  "failing_second_env = with_search (\<lambda>h q.
     if q = ''Bill Evans Autumn Leaves'' then Some [] else None)"

definition silent_env :: env where
  "silent_env = with_search (\<lambda>h q. Some [])"

definition offline_env :: env where
  "offline_env = evans_env\<lparr>http_find_links := (\<lambda>h. None)\<rparr>"

definition typing :: "string list \<Rightarrow> world" where
  "typing ls = \<lparr>w_stdin = ls, w_events = []\<rparr>"



text \<open>Seventy-three distinct identifiers.\<close>

definition ids73 :: "string list" where
  "ids73 = map (\<lambda>n. ''spotify:track:'' @ replicate n CHR ''x'') [0..<73]"

text \<open>
  Ten links on the index page, the last one a second link to the first standard; every
  page cites the same six artists, and the catalog holds one track per standard and
  artist, found by the query made of the artist and the title.
\<close>

definition artists6 :: "(string \<times> string) list" where
  "artists6 = [(''Bill Evans'', ''1959''), (''Miles Davis'', ''1958''), (''John Coltrane'', ''1962''),
               (''Chet Baker'', ''1955''), (''Stan Getz'', ''1964''), (''Art Blakey'', ''1958'')]"

definition titles9 :: "string list" where
  "titles9 = [''Summertime'', ''Misty'', ''Nardis'', ''Solar'', ''Caravan'', ''Laura'',
              ''Stardust'', ''Cherokee'', ''Tenderly'']"

definition jazz_track :: "string \<Rightarrow> string \<Rightarrow> track" where
  "jazz_track t a = \<lparr>trk_uri = t @ ''/'' @ a, trk_name = t, trk_artists = [a], trk_album = ''Album''\<rparr>"

definition jazz_page :: string where
  "jazz_page = ''Bill Evans (1959) Miles Davis (1958) John Coltrane (1962) Chet Baker (1955) Stan Getz (1964) Art Blakey (1958)''"

definition jazz_env :: env where
  "jazz_env =
     \<lparr>http_find_links = (\<lambda>h. Some (map (\<lambda>t. (t, ''/compositions-0/'' @ t @ ''.htm'')) (titles9 @ [''Summertime'']))),
      http_page_text = (\<lambda>h u. Some jazz_page),
      re_findall = (\<lambda>p t. if p = ArtistYear \<and> t = jazz_page then map (\<lambda>(a, y). Groups [a, y]) artists6 else []),
      sp_search = (\<lambda>h q. Some (concat (map (\<lambda>t. concat (map (\<lambda>(a, y).
                      if q = a @ '' '' @ t then [jazz_track t a] else []) artists6)) titles9))),
      sp_user_playlist_create = (\<lambda>h n. Some ''playlist1''),
      sp_playlist_add_items = (\<lambda>h p us. True)\<rparr>"

definition recs6 :: "recording list" where
  "recs6 = map (\<lambda>(a, y). \<lparr>rec_artist = a, rec_info = y, rec_full_text = a @ '' - '' @ y\<rparr>) artists6"

definition jazz_standards :: "standard list" where
  "jazz_standards = map (\<lambda>t. \<lparr>std_title = t, std_url = base_url @ ''/compositions-0/'' @ t @ ''.htm''\<rparr>)
                        (titles9 @ [''Summertime''])"

section \<open>The title test (C3)\<close>

lemma contains_iff_sublist: "contains sub s \<longleftrightarrow> sublist sub s"
  by (induction s) (simp_all add: sublist_Cons_right)

text \<open>
  C3, as stated, fails: for the title Autumn Leaves and the track Autumn in New York
  the test of the source holds, since the word autumn occurs in the track name, while
  neither every word of the title nor the whole title occurs in it.
\<close>

theorem title_match_counterexample:
  "title_match ''Autumn Leaves'' (lower ''Autumn in New York'')
   \<and> \<not> title_match_spec ''Autumn Leaves'' (lower ''Autumn in New York'')"
  by code_simp

text \<open>
  C3, amended: the title half of the strong-match test holds exactly when at least one
  whitespace-delimited word of the lower-cased title occurs as a contiguous block of the
  lower-cased track name, or the whole lower-cased title does.
\<close>

theorem title_match_any_word:
  "title_match standard_title track_name \<longleftrightarrow>
     (\<exists>word \<in> set (split (lower standard_title)). \<exists>ps ss. track_name = ps @ word @ ss)
     \<or> (\<exists>ps ss. track_name = ps @ lower standard_title @ ss)"
  by (simp add: title_match_def list_ex_iff contains_iff_sublist sublist_def)

text \<open>The amended test at the input of the counterexample.\<close>

theorem title_match_any_word_witness:
  "(\<exists>word \<in> set (split (lower ''Autumn Leaves'')). \<exists>ps ss. lower ''Autumn in New York'' = ps @ word @ ss)
     \<or> (\<exists>ps ss. lower ''Autumn in New York'' = ps @ lower ''Autumn Leaves'' @ ss)"
proof -
  have "title_match ''Autumn Leaves'' (lower ''Autumn in New York'')" by code_simp
  then show ?thesis
    using title_match_any_word [of "''Autumn Leaves''" "lower ''Autumn in New York''"] by simp
qed

section \<open>The extractor (C8, C9)\<close>




lemma scrape_recordings_length:
  "length (fst (scrape_recommended_recordings en standard_url w)) \<le> 6"
  by (simp add: scrape_recommended_recordings_def split: option.split)









text \<open>
  C9, as stated, fails: the fields are stripped of surrounding whitespace. The pattern
  with the separator finds the groups \<open>Bill Evans\<close> and \<open>Portrait in Jazz\<close> followed by a
  blank in the text \<open>Bill Evans - Portrait in Jazz (1959)\<close>, and the recording built from
  them does not carry that blank in its info.
\<close>

theorem citation_fields_counterexample:
  "recording_of_match (Groups [''Bill Evans'', ''Portrait in Jazz ''])
     \<noteq> [citation_spec [''Bill Evans'', ''Portrait in Jazz '']]"
  by code_simp

text \<open>
  A match of the pattern for orchestras is a string, not a tuple. Its length is the
  number of its characters, so the first branch of the loop body takes it and indexes
  and joins its characters.
\<close>

lemma orchestra_match_split_into_characters:
  "recording_of_match (Whole ''Duke Ellington'')
     = [\<lparr>rec_artist = ''D'', rec_info = ''u'',
         rec_full_text = ''D - u - k - e -   - E - l - l - i - n - g - t - o - n''\<rparr>]"
  by code_simp

text \<open>
  C9, amended: for every match that is a pair of groups, the recording has the first
  group stripped as artist, the second group stripped as info, and the two groups as
  they are, joined by \<open>'' - ''\<close>, as full text.
\<close>

theorem citation_fields_of_pair:
  "recording_of_match (Groups [g1, g2])
     = [\<lparr>rec_artist = strip g1, rec_info = strip g2, rec_full_text = g1 @ '' - '' @ g2\<rparr>]"
  by (simp add: recording_of_match_def)

text \<open>The amended statement at the match of the counterexample.\<close>

theorem citation_fields_of_pair_witness:
  "recording_of_match (Groups [''Bill Evans'', ''Portrait in Jazz ''])
     = [\<lparr>rec_artist = ''Bill Evans'', rec_info = ''Portrait in Jazz'',
         rec_full_text = ''Bill Evans - Portrait in Jazz ''\<rparr>]"
proof -
  have "strip ''Bill Evans'' = ''Bill Evans''" "strip ''Portrait in Jazz '' = ''Portrait in Jazz''"
    by code_simp+
  then show ?thesis
    using citation_fields_of_pair [of "''Bill Evans''" "''Portrait in Jazz ''"] by simp
qed

section \<open>The resolver (C1, C4, C5)\<close>

text \<open>The test of the second loop implies the test of the first, so the second loop
  never selects a track: without a strong match the proposal is the first result.\<close>

lemma is_weak_imp_is_strong: "is_weak standard_title artist t \<Longrightarrow> is_strong standard_title artist t"
  by (auto simp: is_weak_def is_strong_def artist_match_def title_match_def list_ex_iff)

lemma strong_has_artists: "is_strong standard_title artist t \<Longrightarrow> trk_artists t \<noteq> []"
  by (auto simp: is_strong_def artist_match_def)

lemma best_match_strong:
  "find (is_strong standard_title artist) (first # rest) = Some t \<Longrightarrow>
     best_match standard_title artist first rest = (t, True)"
  by (simp add: best_match_def)

lemma best_match_no_strong:
  assumes "find (is_strong standard_title artist) (first # rest) = None"
  shows "best_match standard_title artist first rest = (first, False)"
proof -
  have "\<forall>x \<in> set (first # rest). \<not> is_strong standard_title artist x"
    using assms unfolding find_None_iff by blast
  then have "\<forall>x \<in> set (first # rest). \<not> is_weak standard_title artist x"
    using is_weak_imp_is_strong by blast
  then have "find (is_weak standard_title artist) (first # rest) = None"
    unfolding find_None_iff by blast
  with assms show ?thesis by (simp only: best_match_def option.case)
qed

lemma query_loop_error:
  "sp_search en (w_events w) query = None \<Longrightarrow>
     query_loop en standard_title artist (query # queries) w = (None, emit (Search query) w)"
  by simp

lemma query_loop_empty:
  "sp_search en (w_events w) query = Some [] \<Longrightarrow>
     query_loop en standard_title artist (query # queries) w
       = query_loop en standard_title artist queries (emit (Search query) w)"
  by simp

lemma query_loop_strong:
  assumes "sp_search en (w_events w) query = Some items"
      and "find (is_strong standard_title artist) items = Some t"
  shows "query_loop en standard_title artist (query # queries) w
           = (Some (trk_uri t), emit (Search query) w)"
proof -
  from assms(2) obtain first rest where items: "items = first # rest"
    by (cases items) auto
  from assms(2) have "is_strong standard_title artist t"
    by (auto simp: find_Some_iff)
  then have "trk_artists t \<noteq> []" by (rule strong_has_artists)
  with assms items show ?thesis
    by (simp add: best_match_strong)
qed

lemma query_loop_skip:
  "k \<le> length qs \<Longrightarrow>
   (\<forall>i<k. sp_search en (w_events w @ map Search (take i qs)) (qs ! i) = Some []) \<Longrightarrow>
     query_loop en standard_title artist qs w
       = query_loop en standard_title artist (drop k qs) (searched w (take k qs))"
proof (induction qs arbitrary: k w)
  case Nil
  then show ?case by (simp add: searched_def)
next
  case (Cons q qs)
  show ?case
  proof (cases k)
    case 0
    then show ?thesis by (simp add: searched_def)
  next
    case (Suc k')
    from Cons.prems(2) Suc have q: "sp_search en (w_events w) q = Some []"
      by (auto dest: spec [where x = 0])
    have rest: "\<forall>i<k'. sp_search en (w_events (emit (Search q) w) @ map Search (take i qs)) (qs ! i) = Some []"
    proof (intro allI impI)
      fix i assume "i < k'"
      then have "Suc i < k" using Suc by simp
      with Cons.prems(2) show "sp_search en (w_events (emit (Search q) w) @ map Search (take i qs)) (qs ! i) = Some []"
        by (auto simp: emit_def dest: spec [where x = "Suc i"])
    qed
    from Cons.prems(1) Suc have "k' \<le> length qs" by simp
    from Cons.IH [OF this rest] q Suc show ?thesis
      by (simp add: searched_def emit_def)
  qed
qed

text \<open>
  C1, as stated, fails: the first query returns one track that is no strong match, the
  second query would return a strong match. The first track is proposed at the prompt,
  and on the answer \<open>y\<close> it is the result; the second query is never made.
\<close>

theorem strong_match_counterexample:
  "is_strong ''Autumn Leaves'' ''Bill Evans'' evans_track
   \<and> sp_search weak_first_env [Search ''Bill Evans Autumn Leaves''] ''Bill Evans 1959'' = Some [evans_track]
   \<and> search_spotify_track weak_first_env ''Autumn Leaves'' ''Bill Evans'' ''1959'' (typing [''y''])
       = (Some ''spotify:track:other'',
          \<lparr>w_stdin = [], w_events = [Search ''Bill Evans Autumn Leaves'', Prompt]\<rparr>)"
  by code_simp

text \<open>
  C1, amended: when the query at position \<open>k\<close> of the fixed order returns a list with a
  strong match and every query before it returned an empty list, the resolver returns
  the URI of the first strong match of that list; the queries up to position \<open>k\<close> are the
  only calls made, so nothing is asked at the prompt and no later query is issued.
\<close>

theorem strong_match_short_circuit:
  assumes "k < 3"
      and "\<forall>i<k. sp_search en (w_events w @ map Search (take i (queries_of standard_title artist recording_info)))
                     (queries_of standard_title artist recording_info ! i) = Some []"
      and "sp_search en (w_events w @ map Search (take k (queries_of standard_title artist recording_info)))
                     (queries_of standard_title artist recording_info ! k) = Some items"
      and "find (is_strong standard_title artist) items = Some t"
  shows "search_spotify_track en standard_title artist recording_info w
           = (Some (trk_uri t),
              searched w (take (Suc k) (queries_of standard_title artist recording_info)))"
proof -
  let ?qs = "queries_of standard_title artist recording_info"
  have len: "length ?qs = 3" by (simp add: queries_of_def)
  with assms(1) have k: "k \<le> length ?qs" by simp
  from assms(1) len have d: "drop k ?qs = (?qs ! k) # drop (Suc k) ?qs"
    by (simp add: Cons_nth_drop_Suc)
  have "search_spotify_track en standard_title artist recording_info w
          = query_loop en standard_title artist ((?qs ! k) # drop (Suc k) ?qs) (searched w (take k ?qs))"
    unfolding search_spotify_track_def
    using query_loop_skip [OF k assms(2)] d by simp
  also have "\<dots> = (Some (trk_uri t), emit (Search (?qs ! k)) (searched w (take k ?qs)))"
    using assms(3,4) by (intro query_loop_strong) (simp_all add: searched_def)
  also have "emit (Search (?qs ! k)) (searched w (take k ?qs)) = searched w (take (Suc k) ?qs)"
    using assms(1) len by (simp add: searched_def emit_def take_Suc_conv_app_nth)
  finally show ?thesis .
qed

text \<open>The first query returns nothing and the second a strong match in second place:
  the third query is not issued.\<close>

theorem strong_match_short_circuit_witness:
  "search_spotify_track evans_env ''Autumn Leaves'' ''Bill Evans'' ''1959'' world0
     = (Some ''spotify:track:autumn'',
        \<lparr>w_stdin = [], w_events = [Search ''Bill Evans Autumn Leaves'', Search ''Bill Evans 1959'']\<rparr>)"
proof -
  have k: "(1::nat) < 3" by simp
  have e: "\<forall>i<1. sp_search evans_env
              (w_events world0 @ map Search (take i (queries_of ''Autumn Leaves'' ''Bill Evans'' ''1959'')))
              (queries_of ''Autumn Leaves'' ''Bill Evans'' ''1959'' ! i) = Some []"
    by (simp add: evans_env_def queries_of_def)
  have s: "sp_search evans_env
              (w_events world0 @ map Search (take 1 (queries_of ''Autumn Leaves'' ''Bill Evans'' ''1959'')))
              (queries_of ''Autumn Leaves'' ''Bill Evans'' ''1959'' ! 1) = Some [other_track, evans_track]"
    by (simp add: evans_env_def queries_of_def)
  have f: "find (is_strong ''Autumn Leaves'' ''Bill Evans'') [other_track, evans_track] = Some evans_track"
    by code_simp
  show ?thesis
    using strong_match_short_circuit [OF k e s f]
    by (simp add: searched_def world0_def queries_of_def evans_track_def)
qed

lemma ask_reject:
  "w_stdin w = junk @ line # lines \<Longrightarrow>
   \<forall>l \<in> set junk. strip (lower l) \<notin> set [''y'', ''yes'', ''n'', ''no'', ''s'', ''skip''] \<Longrightarrow>
   strip (lower line) \<in> set [''n'', ''no''] \<Longrightarrow>
     ask w = (Reject, w\<lparr>w_stdin := lines,
                        w_events := w_events w @ replicate (Suc (length junk)) Prompt\<rparr>)"
proof (induction junk arbitrary: w)
  case Nil
  then show ?case
    by (subst ask.simps) (auto simp: emit_def)
next
  case (Cons j junk)
  let ?w = "emit Prompt (w\<lparr>w_stdin := junk @ line # lines\<rparr>)"
  have step: "ask w = ask ?w"
    using Cons.prems(1,2) by (subst ask.simps) simp
  have "w_stdin ?w = junk @ line # lines" by (simp add: emit_def)
  from Cons.IH [OF this] Cons.prems(2,3)
  have "ask ?w = (Reject, ?w\<lparr>w_stdin := lines,
                        w_events := w_events ?w @ replicate (Suc (length junk)) Prompt\<rparr>)"
    by simp
  with step show ?case
    by (simp add: emit_def replicate_append_same)
qed

text \<open>
  C4, as stated, fails: the only track of the first query is rejected with \<open>n\<close>, nothing
  else remains in that list, and the result is the strong match of the second query,
  not the absence of a match.
\<close>

theorem reject_counterexample:
  "search_spotify_track weak_first_env ''Autumn Leaves'' ''Bill Evans'' ''1959'' (typing [''n''])
     = (Some ''spotify:track:autumn'',
        \<lparr>w_stdin = [],
          w_events = [Search ''Bill Evans Autumn Leaves'', Prompt, Search ''Bill Evans 1959'']\<rparr>)"
  by code_simp

text \<open>
  C4, amended: when a proposal that is no strong match is rejected (after any number
  of lines that are no answer), the rest of that query's result list is dropped and the
  resolver goes on with the next query of the fixed order; when no query remains, the
  result is the absence of a match.
\<close>

theorem reject_moves_to_next_query:
  assumes "sp_search en (w_events w) query = Some (first # rest)"
      and "best_match standard_title artist first rest = (best, False)"
      and "trk_artists best \<noteq> []"
      and "w_stdin w = junk @ line # lines"
      and "\<forall>l \<in> set junk. strip (lower l) \<notin> set [''y'', ''yes'', ''n'', ''no'', ''s'', ''skip'']"
      and "strip (lower line) \<in> set [''n'', ''no'']"
  shows "query_loop en standard_title artist (query # queries) w
           = query_loop en standard_title artist queries
               (w\<lparr>w_stdin := lines,
                  w_events := w_events w @ Search query # replicate (Suc (length junk)) Prompt\<rparr>)
         \<and> query_loop en standard_title artist [query] w
           = (None, w\<lparr>w_stdin := lines,
                       w_events := w_events w @ Search query # replicate (Suc (length junk)) Prompt\<rparr>)"
proof -
  have "w_stdin (emit (Search query) w) = junk @ line # lines"
    using assms(4) by (simp add: emit_def)
  from ask_reject [OF this assms(5,6)]
  have "ask (emit (Search query) w)
          = (Reject, w\<lparr>w_stdin := lines,
                       w_events := w_events w @ Search query # replicate (Suc (length junk)) Prompt\<rparr>)"
    by (simp add: emit_def)
  with assms(1,2,3) show ?thesis by simp
qed

text \<open>A line that is no answer, then \<open>No\<close> followed by a blank: two prompts, and the
  loop goes on with the second query.\<close>

theorem reject_moves_to_next_query_witness:
  "query_loop weak_first_env ''Autumn Leaves'' ''Bill Evans''
      [''Bill Evans Autumn Leaves'', ''Bill Evans 1959'', ''Autumn Leaves Bill Evans'']
      (typing [''maybe'', ''No '', ''y''])
     = query_loop weak_first_env ''Autumn Leaves'' ''Bill Evans''
         [''Bill Evans 1959'', ''Autumn Leaves Bill Evans'']
         \<lparr>w_stdin = [''y''], w_events = [Search ''Bill Evans Autumn Leaves'', Prompt, Prompt]\<rparr>
   \<and> query_loop weak_first_env ''Autumn Leaves'' ''Bill Evans'' [''Bill Evans Autumn Leaves'']
      (typing [''maybe'', ''No '', ''y''])
     = (None, \<lparr>w_stdin = [''y''], w_events = [Search ''Bill Evans Autumn Leaves'', Prompt, Prompt]\<rparr>)"
proof -
  have s: "sp_search weak_first_env (w_events (typing [''maybe'', ''No '', ''y'']))
             ''Bill Evans Autumn Leaves'' = Some (other_track # [])"
    by (simp add: weak_first_env_def with_search_def)
  have b: "best_match ''Autumn Leaves'' ''Bill Evans'' other_track [] = (other_track, False)"
    by code_simp
  have a: "trk_artists other_track \<noteq> []" by (simp add: other_track_def)
  have i: "w_stdin (typing [''maybe'', ''No '', ''y'']) = [''maybe''] @ ''No '' # [''y'']"
    by (simp add: typing_def)
  have j: "\<forall>l \<in> set [''maybe'']. strip (lower l) \<notin> set [''y'', ''yes'', ''n'', ''no'', ''s'', ''skip'']"
    by code_simp
  have n: "strip (lower ''No '') \<in> set [''n'', ''no'']" by code_simp
  show ?thesis
    using reject_moves_to_next_query [OF s b a i j n,
            of "[''Bill Evans 1959'', ''Autumn Leaves Bill Evans'']"]
    by (simp add: typing_def)
qed

text \<open>
  C5, as stated, fails: the search for the first query raises, the second query would
  return a strong match, and the resolver returns the absence of a match after the
  first search; the second query is not issued.
\<close>

theorem search_error_counterexample:
  "sp_search failing_first_env [Search ''Bill Evans Autumn Leaves''] ''Bill Evans 1959'' = Some [evans_track]
   \<and> search_spotify_track failing_first_env ''Autumn Leaves'' ''Bill Evans'' ''1959'' world0
       = (None, \<lparr>w_stdin = [], w_events = [Search ''Bill Evans Autumn Leaves'']\<rparr>)
   \<and> Search ''Bill Evans 1959''
       \<notin> set (w_events (snd (search_spotify_track failing_first_env ''Autumn Leaves'' ''Bill Evans'' ''1959'' world0)))"
  by code_simp

text \<open>
  C5, amended: when the search for a query raises after empty answers to the queries
  before it, the resolver returns the absence of a match at once and issues none of the
  remaining queries; when all three queries return an empty list, all three are issued
  and the result is the absence of a match. The handler catches every exception of the
  body, so every path of \<open>search_spotify_track\<close> ends in a value.
\<close>

theorem search_error_ends_resolution:
  "(k < 3
     \<and> (\<forall>i<k. sp_search en (w_events w @ map Search (take i (queries_of standard_title artist recording_info)))
                  (queries_of standard_title artist recording_info ! i) = Some [])
     \<and> sp_search en (w_events w @ map Search (take k (queries_of standard_title artist recording_info)))
                  (queries_of standard_title artist recording_info ! k) = None
    \<longrightarrow> search_spotify_track en standard_title artist recording_info w
          = (None, searched w (take (Suc k) (queries_of standard_title artist recording_info))))
   \<and> ((\<forall>i<3. sp_search en (w_events w @ map Search (take i (queries_of standard_title artist recording_info)))
                  (queries_of standard_title artist recording_info ! i) = Some [])
    \<longrightarrow> search_spotify_track en standard_title artist recording_info w
          = (None, searched w (queries_of standard_title artist recording_info)))"
proof (intro conjI impI; (elim conjE)?)
  let ?qs = "queries_of standard_title artist recording_info"
  have len: "length ?qs = 3" by (simp add: queries_of_def)
  {
    assume k: "k < 3"
      and empty: "\<forall>i<k. sp_search en (w_events w @ map Search (take i ?qs)) (?qs ! i) = Some []"
      and err: "sp_search en (w_events w @ map Search (take k ?qs)) (?qs ! k) = None"
    from k len have kl: "k \<le> length ?qs" by simp
    from k len have d: "drop k ?qs = (?qs ! k) # drop (Suc k) ?qs"
      by (simp add: Cons_nth_drop_Suc)
    have "search_spotify_track en standard_title artist recording_info w
            = query_loop en standard_title artist ((?qs ! k) # drop (Suc k) ?qs) (searched w (take k ?qs))"
      unfolding search_spotify_track_def
      using query_loop_skip [OF kl empty] d by simp
    also have "\<dots> = (None, emit (Search (?qs ! k)) (searched w (take k ?qs)))"
      using err by (intro query_loop_error) (simp add: searched_def)
    also have "emit (Search (?qs ! k)) (searched w (take k ?qs)) = searched w (take (Suc k) ?qs)"
      using k len by (simp add: searched_def emit_def take_Suc_conv_app_nth)
    finally show "search_spotify_track en standard_title artist recording_info w
          = (None, searched w (take (Suc k) ?qs))" .
  }
  {
    assume empty: "\<forall>i<3. sp_search en (w_events w @ map Search (take i ?qs)) (?qs ! i) = Some []"
    have "3 \<le> length ?qs" using len by simp
    from query_loop_skip [OF this empty] len
    show "search_spotify_track en standard_title artist recording_info w = (None, searched w ?qs)"
      by (simp add: search_spotify_track_def)
  }
qed

text \<open>An error at the second query, and three empty answers.\<close>

theorem search_error_ends_resolution_witness:
  "search_spotify_track failing_second_env ''Autumn Leaves'' ''Bill Evans'' ''1959'' world0
     = (None, \<lparr>w_stdin = [], w_events = [Search ''Bill Evans Autumn Leaves'', Search ''Bill Evans 1959'']\<rparr>)
   \<and> search_spotify_track silent_env ''Autumn Leaves'' ''Bill Evans'' ''1959'' world0
     = (None, \<lparr>w_stdin = [], w_events = [Search ''Bill Evans Autumn Leaves'', Search ''Bill Evans 1959'',
                                          Search ''Autumn Leaves Bill Evans'']\<rparr>)"
proof -
  have p1: "(1::nat) < 3
     \<and> (\<forall>i<1. sp_search failing_second_env
                  (w_events world0 @ map Search (take i (queries_of ''Autumn Leaves'' ''Bill Evans'' ''1959'')))
                  (queries_of ''Autumn Leaves'' ''Bill Evans'' ''1959'' ! i) = Some [])
     \<and> sp_search failing_second_env
                  (w_events world0 @ map Search (take 1 (queries_of ''Autumn Leaves'' ''Bill Evans'' ''1959'')))
                  (queries_of ''Autumn Leaves'' ''Bill Evans'' ''1959'' ! 1) = None"
    by (simp add: failing_second_env_def with_search_def queries_of_def)
  have p2: "\<forall>i<3. sp_search silent_env
                  (w_events world0 @ map Search (take i (queries_of ''Autumn Leaves'' ''Bill Evans'' ''1959'')))
                  (queries_of ''Autumn Leaves'' ''Bill Evans'' ''1959'' ! i) = Some []"
    by (simp add: silent_env_def with_search_def)
  show ?thesis
    using search_error_ends_resolution [of 1 failing_second_env world0 "''Autumn Leaves''" "''Bill Evans''" "''1959''"]
          search_error_ends_resolution [of 0 silent_env world0 "''Autumn Leaves''" "''Bill Evans''" "''1959''"]
          p1 p2
    by (simp add: searched_def world0_def queries_of_def)
qed

section \<open>The run (C2, C6, C7, C10)\<close>

lemma appends_append: "appends (xs @ ys) = appends xs @ appends ys"
  by (induction xs rule: appends.induct) simp_all

lemma offer_length: "length (offer r buf) \<le> Suc (length buf)"
  by (cases r) simp_all

lemma recordings_loop_length:
  "length (fst (recordings_loop en t rs buf w)) \<le> length buf + length rs"
proof (induction rs arbitrary: buf w)
  case Nil
  then show ?case by simp
next
  case (Cons r rs)
  obtain track_uri w' where s: "search_spotify_track en t (rec_artist r) (rec_info r) w = (track_uri, w')"
    by (cases "search_spotify_track en t (rec_artist r) (rec_info r) w")
  have "length (fst (recordings_loop en t rs (offer track_uri buf) w'))
          \<le> length (offer track_uri buf) + length rs"
    by (rule Cons.IH)
  also have "\<dots> \<le> Suc (length buf) + length rs"
    using offer_length [of track_uri buf] by simp
  finally show ?case using s by simp
qed

lemma flush_if_full_length:
  "length buf < 100 \<Longrightarrow> length (fst (flush_if_full en pid (buf, w))) < 50"
  by (auto simp: flush_if_full_def)

lemma process_standard_length:
  assumes "length buf < 50"
  shows "length (fst (process_standard en pid s buf w)) < 50"
proof -
  obtain recs w' where sc: "scrape_recommended_recordings en (std_url s) w = (recs, w')"
    by (cases "scrape_recommended_recordings en (std_url s) w")
  then have "length recs \<le> 6"
    using scrape_recordings_length [of en "std_url s" w] by simp
  obtain buf' w'' where rl: "recordings_loop en (std_title s) recs buf w' = (buf', w'')"
    by (cases "recordings_loop en (std_title s) recs buf w'")
  then have "length buf' \<le> length buf + length recs"
    using recordings_loop_length [of en "std_title s" recs buf w'] by simp
  with assms \<open>length recs \<le> 6\<close> have "length buf' < 100" by simp
  then have "length (fst (flush_if_full en pid (buf', w''))) < 50"
    by (rule flush_if_full_length)
  with sc rl assms show ?thesis by (simp add: process_standard_def)
qed

lemma standards_loop_length:
  "length buf < 50 \<Longrightarrow> length (fst (standards_loop en pid ss buf w)) < 50"
proof (induction ss arbitrary: buf w)
  case Nil
  then show ?case by simp
next
  case (Cons s ss)
  obtain buf' w' where p: "process_standard en pid s buf w = (buf', w')"
    by (cases "process_standard en pid s buf w")
  then have "length buf' < 50"
    using process_standard_length [OF Cons.prems, of en pid s w] by simp
  from Cons.IH [OF this] p show ?case by simp
qed

text \<open>
  C6, amended: \<open>all_track_uris\<close> holds fewer than 50 URIs whenever a standard begins and
  when the loop is over, and at most 55 between two batch steps, since a standard has
  at most 6 recordings and the batch step runs only once they are all searched.
\<close>

theorem buffer_bounded_by_55:
  assumes "k < length standards"
  shows "length (buffer_at en pid standards w k 0) < 50
       \<and> length (buffer_at en pid standards w k j) \<le> 55
       \<and> length (fst (standards_loop en pid standards [] w)) < 50"
proof -
  obtain buf w' where sl: "standards_loop en pid (take k standards) [] w = (buf, w')"
    by (cases "standards_loop en pid (take k standards) [] w")
  then have b: "length buf < 50"
    using standards_loop_length [of "[]" en pid "take k standards" w] by simp
  obtain recs w'' where sc: "scrape_recommended_recordings en (std_url (standards ! k)) w' = (recs, w'')"
    by (cases "scrape_recommended_recordings en (std_url (standards ! k)) w'")
  then have r: "length recs \<le> 6"
    using scrape_recordings_length [of en "std_url (standards ! k)" w'] by simp
  have "length (fst (recordings_loop en (std_title (standards ! k)) (take j recs) buf w''))
          \<le> length buf + length (take j recs)"
    by (rule recordings_loop_length)
  with b r have "length (fst (recordings_loop en (std_title (standards ! k)) (take j recs) buf w'')) \<le> 55"
    by simp
  moreover have "length (fst (standards_loop en pid standards [] w)) < 50"
    by (rule standards_loop_length) simp
  ultimately show ?thesis using sl sc b by (simp add: buffer_at_def)
qed

text \<open>The amended bound inside the ninth standard of the scenario with ten links.\<close>

theorem buffer_bounded_by_55_witness:
  "length (buffer_at jazz_env ''playlist1'' jazz_standards world0 8 0) < 50
   \<and> length (buffer_at jazz_env ''playlist1'' jazz_standards world0 8 6) \<le> 55
   \<and> length (fst (standards_loop jazz_env ''playlist1'' jazz_standards [] world0)) < 50"
proof -
  have "8 < length jazz_standards" by (simp add: jazz_standards_def titles9_def)
  from buffer_bounded_by_55 [OF this] show ?thesis .
qed

lemma quiet_refl: "quiet w w"
  by (simp add: quiet_def)

lemma quiet_trans: "quiet w w' \<Longrightarrow> quiet w' w'' \<Longrightarrow> quiet w w''"
  by (auto simp: quiet_def appends_append)

lemma quiet_bounded: "quiet w w' \<Longrightarrow> bounded w w'"
  by (auto simp: quiet_def bounded_def)

lemma bounded_trans: "bounded w w' \<Longrightarrow> bounded w' w'' \<Longrightarrow> bounded w w''"
  by (auto simp: bounded_def appends_append)

lemma quiet_emit: "appends [e] = [] \<Longrightarrow> quiet w (emit e w)"
  by (simp add: quiet_def emit_def)

lemma quiet_stdin: "quiet (w\<lparr>w_stdin := ls\<rparr>) w' \<Longrightarrow> quiet w w'"
  by (simp add: quiet_def)

lemma ask_quiet: "quiet w (snd (ask w))"
proof (induction w rule: ask.induct)
  case (1 w)
  show ?case
  proof (cases "w_stdin w")
    case Nil
    then show ?thesis by (subst ask.simps) (simp add: quiet_emit)
  next
    case (Cons line lines)
    have e: "quiet w (emit Prompt (w\<lparr>w_stdin := lines\<rparr>))"
      by (rule quiet_stdin [where ls = lines]) (simp add: quiet_emit)
    show ?thesis
    proof (cases "strip (lower line) \<in> set [''y'', ''yes''] \<or> strip (lower line) \<in> set [''n'', ''no'']
                   \<or> strip (lower line) \<in> set [''s'', ''skip'']")
      case True
      with Cons e show ?thesis by (subst ask.simps) auto
    next
      case False
      with Cons "1.IH" [of line lines]
      have "quiet (emit Prompt (w\<lparr>w_stdin := lines\<rparr>)) (snd (ask (emit Prompt (w\<lparr>w_stdin := lines\<rparr>))))"
        by simp
      with e have "quiet w (snd (ask (emit Prompt (w\<lparr>w_stdin := lines\<rparr>))))"
        by (rule quiet_trans)
      with Cons False show ?thesis by (subst ask.simps) simp
    qed
  qed
qed

lemma query_loop_quiet: "quiet w (snd (query_loop en t a qs w))"
proof (induction qs arbitrary: w)
  case Nil
  then show ?case by (simp add: quiet_refl)
next
  case (Cons q qs)
  have e: "quiet w (emit (Search q) w)" by (simp add: quiet_emit)
  have a: "quiet w (snd (ask (emit (Search q) w)))"
    using e ask_quiet by (rule quiet_trans)
  have r: "quiet w (snd (query_loop en t a qs w'))" if "quiet w w'" for w'
    using that Cons.IH by (rule quiet_trans)
  show ?case
    using e a r [OF e] r [OF a]
    by (auto split: option.split list.split prod.split decision.split)
qed

lemma search_spotify_track_quiet: "quiet w (snd (search_spotify_track en t a i w))"
  by (simp add: search_spotify_track_def query_loop_quiet)

lemma recordings_loop_quiet: "quiet w (snd (recordings_loop en t rs buf w))"
proof (induction rs arbitrary: buf w)
  case Nil
  then show ?case by (simp add: quiet_refl)
next
  case (Cons r rs)
  obtain track_uri w' where s: "search_spotify_track en t (rec_artist r) (rec_info r) w = (track_uri, w')"
    by (cases "search_spotify_track en t (rec_artist r) (rec_info r) w")
  then have "quiet w w'"
    using search_spotify_track_quiet [of w en t "rec_artist r" "rec_info r"] by simp
  then have "quiet w (snd (recordings_loop en t rs (offer track_uri buf) w'))"
    using Cons.IH by (rule quiet_trans)
  with s show ?case by simp
qed

lemma scrape_recordings_quiet: "quiet w (snd (scrape_recommended_recordings en u w))"
  by (simp add: scrape_recommended_recordings_def quiet_emit split: option.split)

lemma add_tracks_bounded:
  "length us \<le> 50 \<Longrightarrow> bounded w (add_tracks_to_playlist en pid us w)"
  by (simp add: bounded_def add_tracks_to_playlist_def emit_def)

lemma flush_if_full_bounded: "bounded w (snd (flush_if_full en pid (buf, w)))"
proof -
  have "bounded w w" by (simp add: quiet_bounded quiet_refl)
  moreover have "bounded w (add_tracks_to_playlist en pid (take 50 buf) w)"
    by (rule add_tracks_bounded) simp
  ultimately show ?thesis by (simp add: flush_if_full_def)
qed

lemma process_standard_bounded: "bounded w (snd (process_standard en pid s buf w))"
proof -
  obtain recs w' where sc: "scrape_recommended_recordings en (std_url s) w = (recs, w')"
    by (cases "scrape_recommended_recordings en (std_url s) w")
  then have q1: "quiet w w'"
    using scrape_recordings_quiet [of w en "std_url s"] by simp
  obtain buf' w'' where rl: "recordings_loop en (std_title s) recs buf w' = (buf', w'')"
    by (cases "recordings_loop en (std_title s) recs buf w'")
  then have "quiet w' w''"
    using recordings_loop_quiet [of w' en "std_title s" recs buf] by simp
  with q1 have "bounded w w''" by (blast intro: quiet_trans quiet_bounded)
  then have "bounded w (snd (flush_if_full en pid (buf', w'')))"
    using flush_if_full_bounded by (rule bounded_trans)
  with sc rl q1 show ?thesis by (simp add: process_standard_def quiet_bounded)
qed

lemma standards_loop_bounded: "bounded w (snd (standards_loop en pid ss buf w))"
proof (induction ss arbitrary: buf w)
  case Nil
  then show ?case by (simp add: quiet_bounded quiet_refl)
next
  case (Cons s ss)
  obtain buf' w' where p: "process_standard en pid s buf w = (buf', w')"
    by (cases "process_standard en pid s buf w")
  then have "bounded w w'"
    using process_standard_bounded [of w en pid s buf] by simp
  then have "bounded w (snd (standards_loop en pid ss buf' w'))"
    using Cons.IH by (rule bounded_trans)
  with p show ?case by simp
qed

lemma run_bounded: "bounded w (snd (run en w))"
proof -
  obtain standards w1 where st: "scrape_top_100_standards en w = (standards, w1)"
    by (cases "scrape_top_100_standards en w")
  then have b1: "bounded w w1"
    by (auto simp: scrape_top_100_standards_def quiet_bounded quiet_emit split: option.splits)
  obtain r w2 where cp: "create_playlist en w1 = (r, w2)"
    by (cases "create_playlist en w1")
  then have "bounded w1 w2"
    by (auto simp: create_playlist_def quiet_bounded quiet_emit)
  with b1 have b2: "bounded w w2" by (rule bounded_trans)
  show ?thesis
  proof (cases "standards = [] \<or> r = None")
    case True
    with st cp b1 b2 show ?thesis by (auto simp: run_def)
  next
    case False
    then obtain pid where r: "r = Some pid" by auto
    obtain buf w3 where sl: "standards_loop en pid standards [] w2 = (buf, w3)"
      by (cases "standards_loop en pid standards [] w2")
    then have "bounded w2 w3"
      using standards_loop_bounded [of w2 en pid standards "[]"] by simp
    with b2 have b3: "bounded w w3" by (rule bounded_trans)
    have "length buf < 50"
      using standards_loop_length [of "[]" en pid standards w2] sl by simp
    then have "bounded w3 (add_tracks_to_playlist en pid buf w3)"
      by (intro add_tracks_bounded) simp
    with b3 have "bounded w (add_tracks_to_playlist en pid buf w3)" by (rule bounded_trans)
    with False st cp r sl b3 show ?thesis by (simp add: run_def)
  qed
qed

text \<open>
  C7: every call of \<^verbatim>\<open>playlist_add_items\<close> made by \<open>run\<close> passes at most 50 URIs; and the
  batch step on 73 URIs makes one call with the first 50 and keeps 23.
\<close>

theorem append_calls_at_most_50:
  "(\<forall>track_uris \<in> set (appends (drop (length (w_events w)) (w_events (snd (run en w))))).
      length track_uris \<le> 50)
   \<and> (length buf = 73 \<longrightarrow>
        length (fst (flush_if_full en pid (buf, w'))) = 23
        \<and> appends (drop (length (w_events w')) (w_events (snd (flush_if_full en pid (buf, w')))))
            = [take 50 buf]
        \<and> length (take 50 buf) = 50)"
proof -
  from run_bounded [of w en] obtain es where
    "w_events (snd (run en w)) = w_events w @ es" "\<forall>us \<in> set (appends es). length us \<le> 50"
    by (auto simp: bounded_def)
  then have "\<forall>track_uris \<in> set (appends (drop (length (w_events w)) (w_events (snd (run en w))))).
      length track_uris \<le> 50"
    by simp
  then show ?thesis
    by (simp add: flush_if_full_def add_tracks_to_playlist_def emit_def)
qed

text \<open>The run of the Autumn Leaves scenario makes one call with one URI.\<close>

theorem append_calls_at_most_50_witness:
  "appends (drop (length (w_events world0)) (w_events (snd (run evans_env world0))))
     = [[''spotify:track:autumn'']]
   \<and> length [''spotify:track:autumn''] \<le> (50::nat)
   \<and> length (fst (flush_if_full evans_env ''playlist1'' (ids73, world0))) = 23
   \<and> length (take 50 ids73) = 50"
proof -
  have r: "appends (drop (length (w_events world0)) (w_events (snd (run evans_env world0))))
     = [[''spotify:track:autumn'']]"
    by code_simp
  have l: "length ids73 = 73" by (simp add: ids73_def)
  show ?thesis
    using append_calls_at_most_50 [of world0 evans_env ids73 "''playlist1''" world0] r l
    by simp
qed

text \<open>
  C10: when the list of standards is empty, \<open>run\<close> returns with the request for the index
  page as its only call: no playlist is created, nothing is searched, nothing is
  appended.
\<close>

theorem empty_harvest_stops_run:
  assumes "fst (scrape_top_100_standards en w) = []"
  shows "run en w = (Returned, emit FetchIndex w)"
  using assms by (auto simp: run_def scrape_top_100_standards_def split: option.splits)

text \<open>The index page cannot be fetched.\<close>

theorem empty_harvest_stops_run_witness:
  "run offline_env world0 = (Returned, \<lparr>w_stdin = [], w_events = [FetchIndex]\<rparr>)"
proof -
  have "fst (scrape_top_100_standards offline_env world0) = []"
    by (simp add: scrape_top_100_standards_def offline_env_def)
  from empty_harvest_stops_run [OF this] show ?thesis
    by (simp add: emit_def world0_def)
qed

subsection \<open>The scenario with ten links\<close>

lemma is_strong_exact:
  "is_strong t a \<lparr>trk_uri = u, trk_name = t, trk_artists = [a], trk_album = al\<rparr>"
  by (simp add: is_strong_def artist_match_def title_match_def contains_iff_sublist)

lemma jazz_search:
  "\<forall>t \<in> set titles9. \<forall>(a, y) \<in> set artists6.
     sp_search jazz_env h (a @ '' '' @ t) = Some [jazz_track t a]"
  by (simp add: jazz_env_def titles9_def artists6_def)

lemma jazz_resolve:
  assumes "t \<in> set titles9" and "(a, y) \<in> set artists6"
  shows "search_spotify_track jazz_env t a y w
           = (Some (t @ ''/'' @ a), emit (Search (a @ '' '' @ t)) w)"
proof -
  from jazz_search assms have s: "sp_search jazz_env (w_events w) (a @ '' '' @ t) = Some [jazz_track t a]"
    by blast
  have f: "find (is_strong t a) [jazz_track t a] = Some (jazz_track t a)"
    by (simp add: jazz_track_def is_strong_exact)
  from query_loop_strong [OF s f] show ?thesis
    by (simp add: search_spotify_track_def queries_of_def jazz_track_def)
qed

lemma jazz_citations: "take 6 (unique_recordings (collect_recordings jazz_env jazz_page)) = recs6"
  by code_simp

lemma jazz_scrape:
  "scrape_recommended_recordings jazz_env u w = (recs6, emit (FetchPage u) w)"
  using jazz_citations by (simp add: scrape_recommended_recordings_def jazz_env_def)

lemma jazz_recordings_loop:
  assumes "t \<in> set titles9"
  shows "recordings_loop jazz_env t recs6 buf w
           = (foldl (\<lambda>b (a, y). offer (Some (t @ ''/'' @ a)) b) buf artists6,
              searched w (map (\<lambda>(a, y). a @ '' '' @ t) artists6))"
proof -
  have r: "search_spotify_track jazz_env t a y w'
           = (Some (t @ ''/'' @ a), emit (Search (a @ '' '' @ t)) w')"
    if "(a, y) \<in> set artists6" for a y w'
    using assms that by (rule jazz_resolve)
  show ?thesis
    unfolding recs6_def artists6_def
    using r by (simp add: artists6_def searched_def emit_def del: offer.simps)
qed

lemma jazz_index:
  "scrape_top_100_standards jazz_env w = (jazz_standards, emit FetchIndex w)"
  by (simp add: scrape_top_100_standards_def jazz_env_def jazz_standards_def titles9_def
        make_standard_def startswith_def)

lemma recs6_nonempty: "recs6 \<noteq> []"
  by (simp add: recs6_def artists6_def)

lemma jazz_process:
  assumes "t \<in> set titles9"
  shows "process_standard jazz_env pid \<lparr>std_title = t, std_url = u\<rparr> buf w
         = flush_if_full jazz_env pid
             (foldl (\<lambda>b (a, y). offer (Some (t @ ''/'' @ a)) b) buf artists6,
              searched (emit (FetchPage u) w) (map (\<lambda>(a, y). a @ '' '' @ t) artists6))"
  using assms by (simp add: process_standard_def jazz_scrape jazz_recordings_loop recs6_nonempty)

lemma take_recs6: "take 6 recs6 = recs6"
  by (simp add: recs6_def artists6_def)

lemma jazz_services:
  "sp_user_playlist_create jazz_env h n = Some ''playlist1''"
  "sp_playlist_add_items jazz_env h p us = True"
  by (simp_all add: jazz_env_def)

text \<open>
  C6, as stated, fails: inside the ninth standard, when its six recordings are searched
  and before its batch step, \<open>all_track_uris\<close> holds 54 URIs.
\<close>

theorem buffer_exceeds_50_counterexample:
  "length (buffer_at jazz_env ''playlist1'' jazz_standards
             (snd (create_playlist jazz_env (snd (scrape_top_100_standards jazz_env world0)))) 8 6) = 54"
  by (simp add: buffer_at_def jazz_standards_def titles9_def jazz_process jazz_scrape
        jazz_recordings_loop take_recs6 jazz_index create_playlist_def
        flush_if_full_def artists6_def world0_def searched_def emit_def)

text \<open>
  C2: the URI of the first recording of the first standard is in the first batch of 50;
  the tenth link leads to the same standard, the URI is no longer in \<open>all_track_uris\<close>,
  and it is appended a second time with the last batch.
\<close>

theorem duplicate_after_flush:
  "count_list (concat (appends (w_events (snd (run jazz_env world0))))) ''Summertime/Bill Evans'' = 2"
  by (simp add: run_def jazz_index create_playlist_def add_tracks_to_playlist_def
        jazz_standards_def titles9_def jazz_process jazz_services
        flush_if_full_def artists6_def world0_def searched_def emit_def)

end
